theory Spec2Isabelle
  imports Main "HOL-Library.Word" "HOL-Library.Signed_Division"
begin

section \<open>The chess clock sketch\<close>

text \<open>
  The repository holds two Arduino sketches of the same clock, one after the other in
  \<^verbatim>\<open>chess_clock.ino\<close> (lines 1-268 and 268-579). Their \<^verbatim>\<open>handleSetup\<close>,
  \<^verbatim>\<open>handleGame\<close>, \<^verbatim>\<open>resetTimes\<close>, \<^verbatim>\<open>gameOver\<close> and the body of \<^verbatim>\<open>loop\<close> agree in
  every statement that reads or writes the game state; the second sketch adds two LEDs and
  beeps on start and pause, and lays the display out differently. The model below is that
  common control logic.

  Modelled: the global variables, the static locals of \<^verbatim>\<open>loop\<close> that gate the buzzer, the
  warning and final beeps, and the winner line of the game-over screen. Not modelled: the
  other LCD writes with the static \<^verbatim>\<open>lastTurn\<close> that only feeds them, the LEDs, and the
  start and pause beeps with the static \<^verbatim>\<open>wasSetup\<close> that only feeds them.

  \<^verbatim>\<open>unsigned long\<close> is a 32-bit word and \<^verbatim>\<open>int\<close> is wide enough for 3600 * 1000, as on
  the ESP32 whose pin numbers the sketches use. Every \<^verbatim>\<open>digitalRead\<close> and every
  \<^verbatim>\<open>millis()\<close> of one pass through \<^verbatim>\<open>loop\<close> is an input; the \<^verbatim>\<open>delay\<close> calls only
  move the clock that \<^verbatim>\<open>millis()\<close> reads, so they show up as later timestamps.
\<close>

type_synonym ulong = "32 word"

datatype player = White | Black

record state =
  currentTimeOption :: int
  blackTime :: ulong
  whiteTime :: ulong
  lastUpdateTime :: ulong
  isWhiteTurn :: bool
  isRunning :: bool
  isSetup :: bool
  hasOneMinuteWarning :: bool
  hasThirtySecondWarning :: bool
  lastFinalSecondBeep :: ulong

text \<open>
  The readings of one pass through \<^verbatim>\<open>loop\<close>. A button field is \<open>True\<close> when
  \<^verbatim>\<open>digitalRead\<close> returns \<^verbatim>\<open>LOW\<close> (pressed). Each button is read at most once per pass,
  except the control button inside the wait of \<^verbatim>\<open>gameOver\<close>, whose successive readings
  are \<open>restartPolls\<close>.
\<close>

record inputs =
  bButton :: bool
  wButton :: bool
  controlButton :: bool
  millisToggle :: ulong
  millisUpdate :: ulong
  millisReset :: ulong
  millisWarn :: ulong
  restartPolls :: "bool list"

text \<open>
  What the sketch emits. The buzzer calls carry no argument in the source; the events
  record in addition who was to move, and for the final beep the remaining time of that
  player and the value of \<^verbatim>\<open>currentTime\<close>, so that properties can speak of them.
\<close>

datatype event =
    WarningOneMinute player
  | WarningThirtySeconds player
  | FinalSecondsBeep player ulong ulong
  | GameOverScreen player

definition TIME_OPTIONS :: "int list" where
  "TIME_OPTIONS = [120, 600, 1800, 3600]"

definition NUM_OPTIONS :: int where
  "NUM_OPTIONS = 4"

text \<open>\<^verbatim>\<open>resetTimes\<close>: the product is computed in \<^verbatim>\<open>int\<close> and converted to \<^verbatim>\<open>unsigned long\<close>.\<close>

definition resetTimes :: "ulong \<Rightarrow> state \<Rightarrow> state" where
  "resetTimes now s =
     s\<lparr>blackTime := word_of_int (TIME_OPTIONS ! nat (currentTimeOption s) * 1000),
       whiteTime := word_of_int (TIME_OPTIONS ! nat (currentTimeOption s) * 1000),
       lastUpdateTime := now\<rparr>"

text \<open>\<^verbatim>\<open>handleSetup\<close>: C's \<^verbatim>\<open>%\<close> truncates towards zero, which is \<open>smod\<close>.\<close>

definition handleSetup :: "inputs \<Rightarrow> state \<Rightarrow> state" where
  "handleSetup i s =
     (let s1 = (if bButton i
                then s\<lparr>currentTimeOption := (currentTimeOption s + 1) smod NUM_OPTIONS\<rparr>
                else s);
          s2 = (if wButton i
                then s1\<lparr>currentTimeOption :=
                          (currentTimeOption s1 - 1 + NUM_OPTIONS) smod NUM_OPTIONS\<rparr>
                else s1)
      in if controlButton i
         then resetTimes (millisReset i) (s2\<lparr>isSetup := False\<rparr>)
         else s2)"

text \<open>The control button in \<^verbatim>\<open>handleGame\<close>: start or pause, and restamp.\<close>

definition toggleRun :: "inputs \<Rightarrow> state \<Rightarrow> state" where
  "toggleRun i s =
     (if controlButton i
      then s\<lparr>isRunning := \<not> isRunning s, lastUpdateTime := millisToggle i\<rparr>
      else s)"

text \<open>
  The first half of the \<^verbatim>\<open>if (isRunning)\<close> block of \<^verbatim>\<open>handleGame\<close>: the time of the player to
  move goes down by the time since the last stamp, and stops at zero.
\<close>

definition advance :: "ulong \<Rightarrow> state \<Rightarrow> state" where
  "advance currentTime s =
     (if isRunning s
      then (let elapsed = currentTime - lastUpdateTime s;
                s1 = (if isWhiteTurn s
                      then s\<lparr>whiteTime := (if elapsed \<ge> whiteTime s then 0
                                           else whiteTime s - elapsed)\<rparr>
                      else s\<lparr>blackTime := (if elapsed \<ge> blackTime s then 0
                                           else blackTime s - elapsed)\<rparr>)
            in s1\<lparr>lastUpdateTime := currentTime\<rparr>)
      else s)"

text \<open>
  The second half of the same block, under the same flag (which \<open>advance\<close> leaves as it
  is): the player switches.
\<close>

definition switchTurn :: "inputs \<Rightarrow> state \<Rightarrow> state" where
  "switchTurn i s =
     (if isRunning s
      then (if isWhiteTurn s \<and> wButton i then s\<lparr>isWhiteTurn := False\<rparr>
            else if \<not> isWhiteTurn s \<and> bButton i then s\<lparr>isWhiteTurn := True\<rparr>
            else s)
      else s)"

text \<open>
  The wait of \<^verbatim>\<open>gameOver\<close>: it polls the control button until it reads pressed, and
  returns the number of \<^verbatim>\<open>delay(50)\<close> calls it made. When the readings never show a press,
  the wait does not return: \<open>None\<close>.
\<close>

fun waitForControl :: "bool list \<Rightarrow> nat option" where
  "waitForControl [] = None"
| "waitForControl (pressed # rest) =
     (if pressed then Some 0 else map_option Suc (waitForControl rest))"

text \<open>
  \<^verbatim>\<open>gameOver\<close>: the screen is written before the wait, so it is emitted also when the wait
  does not return.
\<close>

definition gameOver :: "inputs \<Rightarrow> state \<Rightarrow> event list \<times> state option" where
  "gameOver i s =
     (let s1 = s\<lparr>isRunning := False\<rparr>;
          screen = (if whiteTime s1 = 0 then GameOverScreen Black else GameOverScreen White)
      in ([screen],
          case waitForControl (restartPolls i) of
            None \<Rightarrow> None
          | Some _ \<Rightarrow> Some (resetTimes (millisReset i) (s1\<lparr>isSetup := True\<rparr>))))"

definition handleGame :: "inputs \<Rightarrow> state \<Rightarrow> event list \<times> state option" where
  "handleGame i s =
     (let s1 = toggleRun i s;
          s2 = switchTurn i (advance (millisUpdate i) s1)
      in if whiteTime s2 = 0 \<or> blackTime s2 = 0 then gameOver i s2 else ([], Some s2))"

text \<open>
  The \<^verbatim>\<open>for\<close> loop of the final five seconds, \<open>k\<close> counting down from 5 to 1; it returns
  the beeps and the new \<^verbatim>\<open>lastFinalSecondBeep\<close>.
\<close>

fun finalBeeps :: "nat \<Rightarrow> player \<Rightarrow> ulong \<Rightarrow> ulong \<Rightarrow> ulong \<Rightarrow> event list \<times> ulong" where
  "finalBeeps 0 p playerTime currentTime lastBeep = ([], lastBeep)"
| "finalBeeps (Suc k) p playerTime currentTime lastBeep =
     (if playerTime \<le> of_nat (Suc k) * 1000 \<and> currentTime - lastBeep \<ge> 1000
      then (case finalBeeps k p playerTime currentTime currentTime of
              (evs, l) \<Rightarrow> (FinalSecondsBeep p playerTime currentTime # evs, l))
      else finalBeeps k p playerTime currentTime lastBeep)"

text \<open>
  The \<^verbatim>\<open>if (isRunning)\<close> block of \<^verbatim>\<open>loop\<close>, after \<^verbatim>\<open>handleGame\<close>, one definition for
  each of its three checks. \<^verbatim>\<open>*currentPlayerTime\<close> is the time of the player to move.
\<close>

definition currentPlayerTime :: "state \<Rightarrow> ulong" where
  "currentPlayerTime s = (if isWhiteTurn s then whiteTime s else blackTime s)"

definition currentPlayer :: "state \<Rightarrow> player" where
  "currentPlayer s = (if isWhiteTurn s then White else Black)"

definition oneMinuteWarning :: "state \<Rightarrow> event list \<times> state" where
  "oneMinuteWarning s =
     (if currentPlayerTime s \<le> 60000 \<and> \<not> hasOneMinuteWarning s
      then ([WarningOneMinute (currentPlayer s)], s\<lparr>hasOneMinuteWarning := True\<rparr>)
      else ([], s))"

definition thirtySecondWarning :: "state \<Rightarrow> event list \<times> state" where
  "thirtySecondWarning s =
     (if currentPlayerTime s \<le> 30000 \<and> \<not> hasThirtySecondWarning s
      then ([WarningThirtySeconds (currentPlayer s)], s\<lparr>hasThirtySecondWarning := True\<rparr>)
      else ([], s))"

definition finalSeconds :: "ulong \<Rightarrow> state \<Rightarrow> event list \<times> state" where
  "finalSeconds currentTime s =
     (if currentPlayerTime s \<le> 5000
      then (case finalBeeps 5 (currentPlayer s) (currentPlayerTime s) currentTime
                   (lastFinalSecondBeep s) of
              (evs, l) \<Rightarrow> (evs, s\<lparr>lastFinalSecondBeep := l\<rparr>))
      else ([], s))"

definition warnings :: "ulong \<Rightarrow> state \<Rightarrow> event list \<times> state" where
  "warnings currentTime s =
     (case oneMinuteWarning s of (e1, s1) \<Rightarrow>
      case thirtySecondWarning s1 of (e2, s2) \<Rightarrow>
      case finalSeconds currentTime s2 of (e3, s3) \<Rightarrow> (e1 @ e2 @ e3, s3))"

text \<open>One pass through \<^verbatim>\<open>loop\<close>.\<close>

definition loop :: "inputs \<Rightarrow> state \<Rightarrow> event list \<times> state option" where
  "loop i s =
     (if isSetup s
      then ([], Some ((handleSetup i s)\<lparr>hasOneMinuteWarning := False,
                                         hasThirtySecondWarning := False,
                                         lastFinalSecondBeep := 0\<rparr>))
      else (case handleGame i s of
              (evs, None) \<Rightarrow> (evs, None)
            | (evs, Some s1) \<Rightarrow>
                (if isRunning s1
                 then (case warnings (millisWarn i) s1 of
                         (evs2, s2) \<Rightarrow> (evs @ evs2, Some s2))
                 else (evs, Some s1))))"

text \<open>
  The events of one game: the passes through \<^verbatim>\<open>loop\<close> from a state in which the game is
  on, up to the pass that finds \<^verbatim>\<open>isSetup\<close> set again (or a wait that does not return, or
  the end of the readings).
\<close>

fun gameRun :: "inputs list \<Rightarrow> state \<Rightarrow> event list" where
  "gameRun [] s = []"
| "gameRun (i # rest) s =
     (if isSetup s then []
      else (case loop i s of
              (evs, None) \<Rightarrow> evs
            | (evs, Some s1) \<Rightarrow> evs @ gameRun rest s1))"


section \<open>Vocabulary of the properties\<close>

fun opponent :: "player \<Rightarrow> player" where
  "opponent White = Black"
| "opponent Black = White"

fun timeOf :: "player \<Rightarrow> state \<Rightarrow> ulong" where
  "timeOf White s = whiteTime s"
| "timeOf Black s = blackTime s"

fun buttonOf :: "player \<Rightarrow> inputs \<Rightarrow> bool" where
  "buttonOf White i = wButton i"
| "buttonOf Black i = bButton i"

fun isOneMinute :: "event \<Rightarrow> bool" where
  "isOneMinute (WarningOneMinute p) = True"
| "isOneMinute e = False"

fun isThirtySeconds :: "event \<Rightarrow> bool" where
  "isThirtySeconds (WarningThirtySeconds p) = True"
| "isThirtySeconds e = False"

fun isFinalBeep :: "event \<Rightarrow> bool" where
  "isFinalBeep (FinalSecondsBeep p r t) = True"
| "isFinalBeep e = False"

text \<open>The values of \<^verbatim>\<open>currentTime\<close> at the final beeps of an event list, in order.\<close>

fun beepTimes :: "event list \<Rightarrow> ulong list" where
  "beepTimes [] = []"
| "beepTimes (FinalSecondsBeep p r t # es) = t # beepTimes es"
| "beepTimes (e # es) = beepTimes es"

text \<open>
  \<open>spaced l ts\<close>: each time of \<open>ts\<close> is at least 1000 ms after the one before it on the
  32-bit millisecond clock, the first one after \<open>l\<close>.
\<close>

fun spaced :: "ulong \<Rightarrow> ulong list \<Rightarrow> bool" where
  "spaced l [] = True"
| "spaced l (t # ts) = (t - l \<ge> 1000 \<and> spaced t ts)"

text \<open>A final beep sounds with at most 5000 ms left for the player to move.\<close>

fun inFinalWindow :: "event \<Rightarrow> bool" where
  "inFinalWindow (FinalSecondsBeep p r t) = (r \<le> 5000)"
| "inFinalWindow e = True"

text \<open>
  The second value the specification attaches to a final beep, in its words
  \<^verbatim>\<open>secondsLeft = ceil(remaining / 1000)\<close>. The sketches do not compute it.
\<close>

definition spec_secondsLeft :: "ulong \<Rightarrow> nat" where
  "spec_secondsLeft remaining = (unat remaining + 999) div 1000"

text \<open>
  Between two passes through \<^verbatim>\<open>loop\<close> both clocks are above zero when the selected time
  option is one of the four.
\<close>

definition ready :: "state \<Rightarrow> bool" where
  "ready s = (0 \<le> currentTimeOption s \<and> currentTimeOption s < 4
              \<and> whiteTime s \<noteq> 0 \<and> blackTime s \<noteq> 0)"

section \<open>Sample states and readings\<close>

text \<open>A ten-minute game under way, White to move, five seconds played.\<close>

definition midGame :: state where
  "midGame = \<lparr>currentTimeOption = 1, blackTime = 600000, whiteTime = 595000,
     lastUpdateTime = 5000, isWhiteTurn = True, isRunning = True, isSetup = False,
     hasOneMinuteWarning = False, hasThirtySecondWarning = False,
     lastFinalSecondBeep = 0\<rparr>"

text \<open>A pass in which no button is pressed and every \<^verbatim>\<open>millis()\<close> reads \<open>t\<close>.\<close>

definition idle :: "ulong \<Rightarrow> inputs" where
  "idle t = \<lparr>bButton = False, wButton = False, controlButton = False,
     millisToggle = t, millisUpdate = t, millisReset = t, millisWarn = t,
     restartPolls = []\<rparr>"

text \<open>The state after \<^verbatim>\<open>setup()\<close>: ten minutes selected, nothing confirmed yet.\<close>

definition powerOn :: state where
  "powerOn = \<lparr>currentTimeOption = 1, blackTime = 600000, whiteTime = 600000,
     lastUpdateTime = 0, isWhiteTurn = True, isRunning = False, isSetup = True,
     hasOneMinuteWarning = False, hasThirtySecondWarning = False,
     lastFinalSecondBeep = 0\<rparr>"

text \<open>The control button pressed at 2000 ms.\<close>

definition confirm :: inputs where
  "confirm = (idle 2000)\<lparr>controlButton := True\<rparr>"

text \<open>White, respectively Black, presses the own button 10 ms after the last stamp of \<open>midGame\<close>.\<close>

definition whitePress :: inputs where
  "whitePress = (idle 5010)\<lparr>wButton := True\<rparr>"

definition blackPress :: inputs where
  "blackPress = (idle 5010)\<lparr>bButton := True\<rparr>"

text \<open>
  The player to move has 300 ms left; the next pass comes 400 ms after the last stamp, and
  the control button is pressed at the second poll of the wait that follows.
\<close>

definition whiteLow :: state where
  "whiteLow = midGame\<lparr>whiteTime := 300\<rparr>"

definition blackLow :: state where
  "blackLow = midGame\<lparr>blackTime := 300, isWhiteTurn := False\<rparr>"

definition flagFall :: inputs where
  "flagFall = (idle 5400)\<lparr>millisReset := 5500, restartPolls := [False, True]\<rparr>"

text \<open>A state with both clocks at zero, and a paused game with the pass that resumes it.\<close>

definition bothZero :: state where
  "bothZero = midGame\<lparr>whiteTime := 0, blackTime := 0\<rparr>"

definition paused :: state where
  "paused = midGame\<lparr>isRunning := False\<rparr>"

definition resume :: inputs where
  "resume = (idle 9200)\<lparr>controlButton := True, millisToggle := 9000\<rparr>"

text \<open>
  White to move with 4900 ms left, both warnings given. Four passes: one that beeps, one
  in which the control button pauses the game, one while the game is paused, and one in
  which the control button resumes the game 1900 ms after the pause (the 200 ms of
  \<^verbatim>\<open>delay\<close> after that press are played time).
\<close>

definition lastSeconds :: state where
  "lastSeconds = midGame\<lparr>whiteTime := 4900, lastUpdateTime := 100000,
     hasOneMinuteWarning := True, hasThirtySecondWarning := True\<rparr>"

definition pauseAndResume :: "inputs list" where
  "pauseAndResume =
     [(idle 100010)\<lparr>millisWarn := 100015\<rparr>,
      (idle 100300)\<lparr>controlButton := True, millisToggle := 100100\<rparr>,
      idle 101000,
      (idle 102200)\<lparr>controlButton := True, millisToggle := 102000, millisWarn := 102205\<rparr>]"

section \<open>What each part leaves alone\<close>

lemma toggleRun_frame [simp]:
  "hasOneMinuteWarning (toggleRun i s) = hasOneMinuteWarning s"
  "hasThirtySecondWarning (toggleRun i s) = hasThirtySecondWarning s"
  "lastFinalSecondBeep (toggleRun i s) = lastFinalSecondBeep s"
  "isSetup (toggleRun i s) = isSetup s"
  "isWhiteTurn (toggleRun i s) = isWhiteTurn s"
  "whiteTime (toggleRun i s) = whiteTime s"
  "blackTime (toggleRun i s) = blackTime s"
  "currentTimeOption (toggleRun i s) = currentTimeOption s"
  by (simp_all add: toggleRun_def)

lemma advance_frame [simp]:
  "hasOneMinuteWarning (advance t s) = hasOneMinuteWarning s"
  "hasThirtySecondWarning (advance t s) = hasThirtySecondWarning s"
  "lastFinalSecondBeep (advance t s) = lastFinalSecondBeep s"
  "isSetup (advance t s) = isSetup s"
  "isRunning (advance t s) = isRunning s"
  "isWhiteTurn (advance t s) = isWhiteTurn s"
  "currentTimeOption (advance t s) = currentTimeOption s"
  by (simp_all add: advance_def Let_def)

lemma switchTurn_frame [simp]:
  "hasOneMinuteWarning (switchTurn i s) = hasOneMinuteWarning s"
  "hasThirtySecondWarning (switchTurn i s) = hasThirtySecondWarning s"
  "lastFinalSecondBeep (switchTurn i s) = lastFinalSecondBeep s"
  "isSetup (switchTurn i s) = isSetup s"
  "isRunning (switchTurn i s) = isRunning s"
  "whiteTime (switchTurn i s) = whiteTime s"
  "blackTime (switchTurn i s) = blackTime s"
  "lastUpdateTime (switchTurn i s) = lastUpdateTime s"
  "currentTimeOption (switchTurn i s) = currentTimeOption s"
  by (simp_all add: switchTurn_def)

lemma resetTimes_frame [simp]:
  "hasOneMinuteWarning (resetTimes t s) = hasOneMinuteWarning s"
  "hasThirtySecondWarning (resetTimes t s) = hasThirtySecondWarning s"
  "lastFinalSecondBeep (resetTimes t s) = lastFinalSecondBeep s"
  "isSetup (resetTimes t s) = isSetup s"
  "isRunning (resetTimes t s) = isRunning s"
  "isWhiteTurn (resetTimes t s) = isWhiteTurn s"
  "lastUpdateTime (resetTimes t s) = t"
  "currentTimeOption (resetTimes t s) = currentTimeOption s"
  by (simp_all add: resetTimes_def)

lemma handleSetup_frame [simp]:
  "hasOneMinuteWarning (handleSetup i s) = hasOneMinuteWarning s"
  "hasThirtySecondWarning (handleSetup i s) = hasThirtySecondWarning s"
  "lastFinalSecondBeep (handleSetup i s) = lastFinalSecondBeep s"
  "isRunning (handleSetup i s) = isRunning s"
  "isWhiteTurn (handleSetup i s) = isWhiteTurn s"
  by (simp_all add: handleSetup_def Let_def)

section \<open>The two results of \<open>gameOver\<close>, \<open>handleGame\<close> and \<open>loop\<close>\<close>

lemma gameOver_fst:
  "fst (gameOver i s) = [GameOverScreen (if whiteTime s = 0 then Black else White)]"
  by (simp add: gameOver_def Let_def)

lemma gameOver_snd:
  "snd (gameOver i s) =
     (case waitForControl (restartPolls i) of
        None \<Rightarrow> None
      | Some n \<Rightarrow> Some (resetTimes (millisReset i) (s\<lparr>isRunning := False, isSetup := True\<rparr>)))"
  by (simp add: gameOver_def Let_def)

lemma handleGame_fst:
  "fst (handleGame i s) =
     (if whiteTime (advance (millisUpdate i) (toggleRun i s)) = 0 then [GameOverScreen Black]
      else if blackTime (advance (millisUpdate i) (toggleRun i s)) = 0
           then [GameOverScreen White]
      else [])"
  by (simp add: handleGame_def Let_def gameOver_fst)

lemma handleGame_snd:
  "snd (handleGame i s) =
     (if whiteTime (advance (millisUpdate i) (toggleRun i s)) = 0
         \<or> blackTime (advance (millisUpdate i) (toggleRun i s)) = 0
      then snd (gameOver i (switchTurn i (advance (millisUpdate i) (toggleRun i s))))
      else Some (switchTurn i (advance (millisUpdate i) (toggleRun i s))))"
  by (simp add: handleGame_def Let_def)

lemma loop_game:
  "\<not> isSetup s \<Longrightarrow> loop i s =
     (case snd (handleGame i s) of
        None \<Rightarrow> (fst (handleGame i s), None)
      | Some s1 \<Rightarrow>
          if isRunning s1
          then (fst (handleGame i s) @ fst (warnings (millisWarn i) s1),
                Some (snd (warnings (millisWarn i) s1)))
          else (fst (handleGame i s), Some s1))"
  by (simp add: loop_def split_def split: option.splits prod.splits)

lemma gameRun_step:
  "\<not> isSetup s \<Longrightarrow> gameRun (i # rest) s =
     (case snd (loop i s) of
        None \<Rightarrow> fst (loop i s)
      | Some s1 \<Rightarrow> fst (loop i s) @ gameRun rest s1)"
  by (simp add: split_def split: option.splits prod.splits)

lemma gameRun_setup: "isSetup s \<Longrightarrow> gameRun ins s = []"
  by (cases ins) simp_all

section \<open>Switching the turn\<close>

text \<open>
  C1, as amended. While the game is running, a press of the button of the player to move
  hands the move to the opponent, and the button of the other player changes nothing: the
  player to move after \<^verbatim>\<open>handleGame\<close> is the opponent when the mover's own button read
  pressed, and the same player otherwise.
\<close>

theorem own_button_ends_turn:
  assumes "isRunning (toggleRun i s)" and "snd (handleGame i s) = Some s'"
  shows "currentPlayer s' =
           (if buttonOf (currentPlayer s) i then opponent (currentPlayer s)
            else currentPlayer s)"
proof -
  let ?s2 = "switchTurn i (advance (millisUpdate i) (toggleRun i s))"
  have turn: "isWhiteTurn s' = isWhiteTurn ?s2"
    using assms(2) by (auto simp: handleGame_snd gameOver_snd split: if_splits option.splits)
  have "isWhiteTurn ?s2 = (if isWhiteTurn s then \<not> wButton i else bButton i)"
    using assms(1) by (simp add: switchTurn_def)
  with turn show ?thesis by (simp add: currentPlayer_def)
qed

text \<open>At \<open>midGame\<close> White presses and Black is to move.\<close>

theorem own_button_ends_turn_witness:
  "isRunning (toggleRun whitePress midGame)
   \<and> snd (handleGame whitePress midGame)
       = Some (midGame\<lparr>whiteTime := 594990, lastUpdateTime := 5010, isWhiteTurn := False\<rparr>)
   \<and> currentPlayer (midGame\<lparr>whiteTime := 594990, lastUpdateTime := 5010,
                             isWhiteTurn := False\<rparr>) = Black"
proof -
  have h1: "isRunning (toggleRun whitePress midGame)"
    by code_simp
  have h2: "snd (handleGame whitePress midGame)
       = Some (midGame\<lparr>whiteTime := 594990, lastUpdateTime := 5010, isWhiteTurn := False\<rparr>)"
    by code_simp
  have h3: "buttonOf (currentPlayer midGame) whitePress" "currentPlayer midGame = White"
    by code_simp+
  show ?thesis
    using h1 h2 h3 own_button_ends_turn [OF h1 h2] by simp
qed

text \<open>
  C1 as stated fails: with White to move in a running game, White's own press is not
  without effect (Black is to move after it), and Black's press does not switch the turn.
\<close>

theorem switch_by_waiting_player_counterexample:
  "isRunning midGame \<and> currentPlayer midGame = White
   \<and> map_option currentPlayer (snd (handleGame whitePress midGame)) = Some Black
   \<and> map_option currentPlayer (snd (handleGame blackPress midGame)) = Some White"
  by code_simp

section \<open>The end of the game\<close>

text \<open>
  C2. From a state with time on both clocks, \<^verbatim>\<open>handleGame\<close> shows the game-over screen
  exactly when the clock of the player to move comes down to 0 in this pass, that is when
  the game is running and the elapsed time is at least what that player had left; the
  winner shown is the opponent, whose clock is not 0; and when \<^verbatim>\<open>gameOver\<close> returns, the
  sketch is back in setup and not running, so that no later time update takes anything
  off a clock.
\<close>

theorem flag_fall_ends_game:
  assumes "whiteTime s \<noteq> 0" and "blackTime s \<noteq> 0"
  shows "fst (handleGame i s) =
           (if timeOf (currentPlayer s) (advance (millisUpdate i) (toggleRun i s)) = 0
            then [GameOverScreen (opponent (currentPlayer s))] else [])
    \<and> timeOf (opponent (currentPlayer s)) (advance (millisUpdate i) (toggleRun i s)) \<noteq> 0
    \<and> (timeOf (currentPlayer s) (advance (millisUpdate i) (toggleRun i s)) = 0 \<longleftrightarrow>
         isRunning (toggleRun i s) \<and>
         timeOf (currentPlayer s) s \<le> millisUpdate i - lastUpdateTime (toggleRun i s))
    \<and> (\<forall>s'. fst (handleGame i s) \<noteq> [] \<and> snd (handleGame i s) = Some s' \<longrightarrow>
           isSetup s' \<and> \<not> isRunning s' \<and> (\<forall>now. advance now s' = s'))"
proof -
  let ?a = "advance (millisUpdate i) (toggleRun i s)"
  have other: "timeOf (opponent (currentPlayer s)) ?a \<noteq> 0"
    using assms by (simp add: advance_def Let_def currentPlayer_def)
  have zero: "timeOf (currentPlayer s) ?a = 0 \<longleftrightarrow>
         isRunning (toggleRun i s) \<and>
         timeOf (currentPlayer s) s \<le> millisUpdate i - lastUpdateTime (toggleRun i s)"
    using assms by (auto simp: advance_def Let_def currentPlayer_def)
  have screen: "fst (handleGame i s) =
           (if timeOf (currentPlayer s) ?a = 0
            then [GameOverScreen (opponent (currentPlayer s))] else [])"
    using other by (simp add: handleGame_fst currentPlayer_def split: if_splits)
  have after: "isSetup s' \<and> \<not> isRunning s' \<and> (\<forall>now. advance now s' = s')"
    if "fst (handleGame i s) \<noteq> []" and "snd (handleGame i s) = Some s'" for s'
  proof -
    from that(1) have "whiteTime ?a = 0 \<or> blackTime ?a = 0"
      by (simp add: handleGame_fst split: if_splits)
    with that(2) have "isSetup s' \<and> \<not> isRunning s'"
      by (auto simp: handleGame_snd gameOver_snd split: option.splits)
    then show ?thesis by (simp add: advance_def)
  qed
  from screen other zero after show ?thesis by blast
qed

text \<open>White's last 300 ms run out: Black wins, and the sketch is back in setup.\<close>

theorem flag_fall_ends_game_witness:
  "whiteTime whiteLow \<noteq> 0 \<and> blackTime whiteLow \<noteq> 0
   \<and> fst (handleGame flagFall whiteLow) = [GameOverScreen Black]
   \<and> (\<exists>s'. snd (handleGame flagFall whiteLow) = Some s' \<and> isSetup s' \<and> \<not> isRunning s')"
proof -
  have h: "whiteTime whiteLow \<noteq> 0" "blackTime whiteLow \<noteq> 0"
    by code_simp+
  have e: "timeOf (currentPlayer whiteLow) (advance (millisUpdate flagFall)
             (toggleRun flagFall whiteLow)) = 0"
    "opponent (currentPlayer whiteLow) = Black"
    by code_simp+
  have r: "snd (handleGame flagFall whiteLow) = Some (powerOn\<lparr>lastUpdateTime := 5500\<rparr>)"
    by code_simp
  from flag_fall_ends_game [OF h, of flagFall] e r h show ?thesis
    by auto
qed

section \<open>The time update\<close>

text \<open>
  C3. In a running game and with a timestamp not before the last stamp, the time update
  takes \<open>now - lastUpdateTime\<close> off the clock of the player to move and stops at zero:
  the new value is 0 when the elapsed time is at least the remaining time and the
  difference otherwise. Read as numbers, the new value is the truncated difference, so it
  never exceeds the old one and does not wrap. The other clock keeps its value and the
  stamp becomes \<open>now\<close>.
\<close>

theorem advance_floor_at_zero:
  assumes "isRunning s" and "lastUpdateTime s \<le> now"
  shows "timeOf (currentPlayer s) (advance now s) =
           (if now - lastUpdateTime s \<ge> timeOf (currentPlayer s) s then 0
            else timeOf (currentPlayer s) s - (now - lastUpdateTime s))
    \<and> unat (timeOf (currentPlayer s) (advance now s)) =
         unat (timeOf (currentPlayer s) s) - (unat now - unat (lastUpdateTime s))
    \<and> timeOf (currentPlayer s) (advance now s) \<le> timeOf (currentPlayer s) s
    \<and> timeOf (opponent (currentPlayer s)) (advance now s)
         = timeOf (opponent (currentPlayer s)) s
    \<and> lastUpdateTime (advance now s) = now"
proof -
  let ?e = "now - lastUpdateTime s"
  let ?r = "timeOf (currentPlayer s) s"
  have e: "unat ?e = unat now - unat (lastUpdateTime s)"
    using assms(2) by (simp add: unat_sub)
  have new: "timeOf (currentPlayer s) (advance now s) = (if ?e \<ge> ?r then 0 else ?r - ?e)"
    using assms(1) by (simp add: advance_def Let_def currentPlayer_def)
  have num: "unat (if ?e \<ge> ?r then 0 else ?r - ?e) = unat ?r - unat ?e"
    by (auto simp: unat_sub word_le_nat_alt)
  have le: "(if ?e \<ge> ?r then 0 else ?r - ?e) \<le> ?r"
    using num by (simp add: word_le_nat_alt)
  have rest: "timeOf (opponent (currentPlayer s)) (advance now s)
         = timeOf (opponent (currentPlayer s)) s \<and> lastUpdateTime (advance now s) = now"
    using assms(1) by (simp add: advance_def Let_def currentPlayer_def)
  from new num le rest e show ?thesis by simp
qed

text \<open>
  At \<open>midGame\<close> 400 ms later White has 594600 ms; at \<open>whiteLow\<close>, with 300 ms left, the
  same 400 ms bring White to 0.
\<close>

theorem advance_floor_at_zero_witness:
  "isRunning midGame \<and> lastUpdateTime midGame \<le> 5400
   \<and> timeOf White (advance 5400 midGame) = 594600
   \<and> isRunning whiteLow \<and> lastUpdateTime whiteLow \<le> 5400
   \<and> timeOf White (advance 5400 whiteLow) = 0"
proof -
  have h: "isRunning midGame" "lastUpdateTime midGame \<le> 5400"
    by code_simp+
  have k: "isRunning whiteLow" "lastUpdateTime whiteLow \<le> 5400"
    by code_simp+
  have v: "currentPlayer midGame = White" "timeOf White midGame = 595000"
    "lastUpdateTime midGame = 5000" "currentPlayer whiteLow = White"
    "timeOf White whiteLow = 300" "lastUpdateTime whiteLow = 5000"
    by code_simp+
  from advance_floor_at_zero [OF h] advance_floor_at_zero [OF k] h k v
  show ?thesis by simp
qed

text \<open>
  C7. In a running game a second time update with the same timestamp computes an elapsed
  time of 0 and changes nothing: neither clock, nor any other part of the state.
\<close>

theorem advance_same_now_idempotent:
  assumes "isRunning s"
  shows "now - lastUpdateTime (advance now s) = 0
    \<and> whiteTime (advance now (advance now s)) = whiteTime (advance now s)
    \<and> blackTime (advance now (advance now s)) = blackTime (advance now s)
    \<and> advance now (advance now s) = advance now s"
  using assms by (simp add: advance_def Let_def)

theorem advance_same_now_idempotent_witness:
  "isRunning midGame \<and> whiteTime (advance 5400 (advance 5400 midGame)) = 594600
   \<and> blackTime (advance 5400 (advance 5400 midGame)) = 600000"
proof -
  have h: "isRunning midGame"
    by code_simp
  have v: "whiteTime (advance 5400 midGame) = 594600"
    "blackTime (advance 5400 midGame) = 600000"
    by code_simp+
  from advance_same_now_idempotent [OF h, of 5400] h v show ?thesis by simp
qed

section \<open>Pausing\<close>

text \<open>
  C4. When the game is not running, the time update leaves the state as it is whatever the
  timestamp, and a pass of \<^verbatim>\<open>handleGame\<close> without the control button returns the state
  unchanged whatever \<^verbatim>\<open>millis()\<close> reads. When the control button is pressed in that
  state, the game runs and the last stamp is the \<^verbatim>\<open>millis()\<close> read at the press; the
  result of the pass does not depend on the stamp the paused state carried, so nothing of
  the pause is taken off a clock. When the wait of \<^verbatim>\<open>gameOver\<close> returns, from whatever
  state \<open>g\<close> it was entered, the game is not running and both clocks hold the full selected
  time, however long the wait was.
\<close>

theorem paused_time_not_debited:
  assumes "\<not> isRunning s"
  shows "advance now s = s
    \<and> (\<not> controlButton i \<and> whiteTime s \<noteq> 0 \<and> blackTime s \<noteq> 0
         \<longrightarrow> handleGame i s = ([], Some s))
    \<and> (controlButton i \<longrightarrow>
          isRunning (toggleRun i s) \<and> lastUpdateTime (toggleRun i s) = millisToggle i
          \<and> handleGame i (s\<lparr>lastUpdateTime := t\<rparr>) = handleGame i s)
    \<and> (\<forall>s'. snd (gameOver i g) = Some s' \<longrightarrow>
          \<not> isRunning s'
          \<and> whiteTime s' = word_of_int (TIME_OPTIONS ! nat (currentTimeOption g) * 1000)
          \<and> blackTime s' = word_of_int (TIME_OPTIONS ! nat (currentTimeOption g) * 1000))"
proof -
  have a: "advance now s = s"
    using assms by (simp add: advance_def)
  have b: "handleGame i s = ([], Some s)"
    if "\<not> controlButton i" "whiteTime s \<noteq> 0" "blackTime s \<noteq> 0"
    using that assms by (simp add: handleGame_def toggleRun_def advance_def switchTurn_def)
  have c: "isRunning (toggleRun i s) \<and> lastUpdateTime (toggleRun i s) = millisToggle i
          \<and> handleGame i (s\<lparr>lastUpdateTime := t\<rparr>) = handleGame i s"
    if "controlButton i"
    using that assms by (simp add: handleGame_def toggleRun_def)
  have d: "\<not> isRunning s'
          \<and> whiteTime s' = word_of_int (TIME_OPTIONS ! nat (currentTimeOption g) * 1000)
          \<and> blackTime s' = word_of_int (TIME_OPTIONS ! nat (currentTimeOption g) * 1000)"
    if "snd (gameOver i g) = Some s'" for s'
    using that by (auto simp: gameOver_snd resetTimes_def split: option.splits)
  from a b c d show ?thesis by blast
qed

text \<open>
  The game paused since 5000 ms is resumed at 9000 ms; the pass updates the time at
  9200 ms and takes those 200 ms, not the 4200 ms since the old stamp.
\<close>

theorem paused_time_not_debited_witness:
  "\<not> isRunning paused \<and> controlButton resume
   \<and> handleGame (idle 9000) paused = ([], Some paused)
   \<and> handleGame resume paused
       = ([], Some (midGame\<lparr>whiteTime := 594800, lastUpdateTime := 9200\<rparr>))
   \<and> handleGame resume (paused\<lparr>lastUpdateTime := 0\<rparr>) = handleGame resume paused"
proof -
  have h: "\<not> isRunning paused"
    by code_simp
  have v: "controlButton resume" "\<not> controlButton (idle 9000)"
    "whiteTime paused \<noteq> 0" "blackTime paused \<noteq> 0"
    by code_simp+
  have r: "handleGame resume paused
       = ([], Some (midGame\<lparr>whiteTime := 594800, lastUpdateTime := 9200\<rparr>))"
    by code_simp
  from paused_time_not_debited [OF h, where i = "idle 9000" and t = 0 and g = paused]
    paused_time_not_debited [OF h, where i = resume and t = 0 and g = paused] h v r
  show ?thesis by simp
qed

section \<open>Setting up a game\<close>

lemma TIME_OPTIONS_nth:
  assumes "0 \<le> k" and "k < 4"
  shows "TIME_OPTIONS ! nat k \<in> {120, 600, 1800, 3600}"
proof -
  from assms have "k = 0 \<or> k = 1 \<or> k = 2 \<or> k = 3" by arith
  then show ?thesis by (auto simp: TIME_OPTIONS_def numeral_eq_Suc)
qed

lemma handleSetup_selection:
  assumes "0 \<le> currentTimeOption s" and "currentTimeOption s < 4"
  shows "0 \<le> currentTimeOption (handleSetup i s) \<and> currentTimeOption (handleSetup i s) < 4"
  using assms
  by (auto simp: handleSetup_def Let_def NUM_OPTIONS_def smod_int_alt_def sgn_if)

lemma resetTimes_value:
  assumes "0 \<le> currentTimeOption s" and "currentTimeOption s < 4"
  shows "uint (whiteTime (resetTimes t s)) = TIME_OPTIONS ! nat (currentTimeOption s) * 1000"
    and "uint (blackTime (resetTimes t s)) = TIME_OPTIONS ! nat (currentTimeOption s) * 1000"
  using TIME_OPTIONS_nth [OF assms]
  by (auto simp: resetTimes_def uint_word_of_int)

lemma resetTimes_positive:
  assumes "0 \<le> currentTimeOption s" and "currentTimeOption s < 4"
  shows "whiteTime (resetTimes t s) \<noteq> 0" and "blackTime (resetTimes t s) \<noteq> 0"
  using TIME_OPTIONS_nth [OF assms]
  by (auto simp: resetTimes_def)

text \<open>
  C8. When the control button is pressed in setup with a selection among the four
  options, \<^verbatim>\<open>handleSetup\<close> leaves setup with both clocks at exactly 1000 times the
  duration \<open>d\<close> that is selected at that moment, \<open>d\<close> being 120, 600, 1800 or 3600.
\<close>

theorem confirm_setup_sets_clocks:
  assumes "controlButton i"
    and "0 \<le> currentTimeOption s" and "currentTimeOption s < 4"
  shows "TIME_OPTIONS ! nat (currentTimeOption (handleSetup i s)) \<in> {120, 600, 1800, 3600}
    \<and> uint (whiteTime (handleSetup i s))
         = TIME_OPTIONS ! nat (currentTimeOption (handleSetup i s)) * 1000
    \<and> uint (blackTime (handleSetup i s))
         = TIME_OPTIONS ! nat (currentTimeOption (handleSetup i s)) * 1000
    \<and> \<not> isSetup (handleSetup i s)"
proof -
  let ?s' = "handleSetup i s"
  obtain s2 where s2: "?s' = resetTimes (millisReset i) s2"
    using assms(1) by (simp add: handleSetup_def Let_def)
  have sel: "0 \<le> currentTimeOption ?s'" "currentTimeOption ?s' < 4"
    using handleSetup_selection [OF assms(2,3)] by simp_all
  then have sel2: "0 \<le> currentTimeOption s2" "currentTimeOption s2 < 4"
    by (simp_all add: s2)
  have "uint (whiteTime ?s') = TIME_OPTIONS ! nat (currentTimeOption ?s') * 1000"
    "uint (blackTime ?s') = TIME_OPTIONS ! nat (currentTimeOption ?s') * 1000"
    using resetTimes_value [OF sel2, of "millisReset i"] by (simp_all add: s2)
  moreover have "\<not> isSetup ?s'"
    using assms(1) by (simp add: handleSetup_def Let_def)
  ultimately show ?thesis
    using TIME_OPTIONS_nth [OF sel] by simp
qed

text \<open>
  Each of the four durations, selected and confirmed with no other button pressed, gives
  its number of milliseconds on both clocks.
\<close>

theorem confirm_setup_sets_clocks_witness:
  "controlButton confirm
   \<and> uint (whiteTime (handleSetup confirm (powerOn\<lparr>currentTimeOption := 0\<rparr>))) = 120 * 1000
   \<and> uint (blackTime (handleSetup confirm (powerOn\<lparr>currentTimeOption := 0\<rparr>))) = 120 * 1000
   \<and> uint (whiteTime (handleSetup confirm (powerOn\<lparr>currentTimeOption := 1\<rparr>))) = 600 * 1000
   \<and> uint (blackTime (handleSetup confirm (powerOn\<lparr>currentTimeOption := 1\<rparr>))) = 600 * 1000
   \<and> uint (whiteTime (handleSetup confirm (powerOn\<lparr>currentTimeOption := 2\<rparr>))) = 1800 * 1000
   \<and> uint (blackTime (handleSetup confirm (powerOn\<lparr>currentTimeOption := 2\<rparr>))) = 1800 * 1000
   \<and> uint (whiteTime (handleSetup confirm (powerOn\<lparr>currentTimeOption := 3\<rparr>))) = 3600 * 1000
   \<and> uint (blackTime (handleSetup confirm (powerOn\<lparr>currentTimeOption := 3\<rparr>))) = 3600 * 1000"
proof -
  have c: "controlButton confirm"
    by code_simp
  have sel: "currentTimeOption (handleSetup confirm (powerOn\<lparr>currentTimeOption := k\<rparr>)) = k"
    for k by (simp add: handleSetup_def confirm_def idle_def Let_def)
  have opt: "TIME_OPTIONS ! nat 0 = 120" "TIME_OPTIONS ! nat 1 = 600"
    "TIME_OPTIONS ! nat 2 = 1800" "TIME_OPTIONS ! nat 3 = 3600"
    by code_simp+
  from confirm_setup_sets_clocks [OF c, of "powerOn\<lparr>currentTimeOption := 0\<rparr>"]
    confirm_setup_sets_clocks [OF c, of "powerOn\<lparr>currentTimeOption := 1\<rparr>"]
    confirm_setup_sets_clocks [OF c, of "powerOn\<lparr>currentTimeOption := 2\<rparr>"]
    confirm_setup_sets_clocks [OF c, of "powerOn\<lparr>currentTimeOption := 3\<rparr>"]
    c sel opt
  show ?thesis by simp
qed

text \<open>
  C9. Neither \<^verbatim>\<open>handleSetup\<close> nor \<^verbatim>\<open>gameOver\<close> writes \<^verbatim>\<open>isWhiteTurn\<close>: the player to move
  after either of them, and after a pass through \<^verbatim>\<open>loop\<close> in setup, is the player who was
  to move before. A game that follows one which ended with Black to move starts with
  Black to move.
\<close>

theorem turn_carries_over:
  "isWhiteTurn (handleSetup i s) = isWhiteTurn s
   \<and> (\<forall>s'. snd (gameOver i s) = Some s' \<longrightarrow> isWhiteTurn s' = isWhiteTurn s \<and> isSetup s')
   \<and> (\<forall>s'. isSetup s \<and> snd (loop i s) = Some s' \<longrightarrow> isWhiteTurn s' = isWhiteTurn s)"
  by (auto simp: gameOver_snd loop_def split: option.splits)

text \<open>
  Black's last 300 ms run out with Black to move. After the restart and the next
  confirmation the new game has ten minutes on both clocks, and Black is to move.
\<close>

theorem turn_carries_over_witness:
  "snd (handleGame flagFall blackLow)
     = Some (powerOn\<lparr>lastUpdateTime := 5500, isWhiteTurn := False\<rparr>)
   \<and> snd (loop confirm (powerOn\<lparr>lastUpdateTime := 5500, isWhiteTurn := False\<rparr>))
     = Some (powerOn\<lparr>lastUpdateTime := 2000, isWhiteTurn := False, isSetup := False\<rparr>)
   \<and> \<not> isWhiteTurn blackLow
   \<and> \<not> isWhiteTurn (powerOn\<lparr>lastUpdateTime := 2000, isWhiteTurn := False, isSetup := False\<rparr>)"
proof -
  let ?over = "powerOn\<lparr>lastUpdateTime := 5500, isWhiteTurn := False\<rparr>"
  let ?next = "powerOn\<lparr>lastUpdateTime := 2000, isWhiteTurn := False, isSetup := False\<rparr>"
  have g: "snd (handleGame flagFall blackLow) = Some ?over"
    by code_simp
  have l: "snd (loop confirm ?over) = Some ?next" "isSetup ?over"
    by code_simp+
  have b: "\<not> isWhiteTurn blackLow" "\<not> isWhiteTurn ?over"
    by code_simp+
  from turn_carries_over [of confirm ?over] g l b show ?thesis
    by auto
qed

text \<open>
  C10. When both clocks are 0, the game-over screen names Black as the winner: the
  winner line tests White's clock first. This holds for \<^verbatim>\<open>gameOver\<close> itself and for a pass
  of \<^verbatim>\<open>handleGame\<close> entered with both clocks at 0.
\<close>

theorem both_zero_black_wins:
  assumes "whiteTime s = 0" and "blackTime s = 0"
  shows "fst (gameOver i s) = [GameOverScreen Black]
    \<and> fst (handleGame i s) = [GameOverScreen Black]"
proof -
  have "whiteTime (advance (millisUpdate i) (toggleRun i s)) = 0"
    using assms(1) by (simp add: advance_def Let_def)
  then show ?thesis
    using assms(1) by (simp add: gameOver_fst handleGame_fst)
qed

theorem both_zero_black_wins_witness:
  "whiteTime bothZero = 0 \<and> blackTime bothZero = 0
   \<and> fst (gameOver (idle 5010) bothZero) = [GameOverScreen Black]
   \<and> fst (handleGame (idle 5010) bothZero) = [GameOverScreen Black]"
proof -
  have h: "whiteTime bothZero = 0" "blackTime bothZero = 0"
    by code_simp+
  from both_zero_black_wins [OF h, of "idle 5010"] h show ?thesis by simp
qed

text \<open>
  The state in which C10 applies does not arise in play: every pass through \<^verbatim>\<open>loop\<close>
  that returns leaves time on both clocks, given a selection among the four options.
\<close>

lemma loop_ready:
  assumes "ready s" and "snd (loop i s) = Some s'"
  shows "ready s'"
proof (cases "isSetup s")
  case True
  have sel: "0 \<le> currentTimeOption (handleSetup i s)" "currentTimeOption (handleSetup i s) < 4"
    using handleSetup_selection [of s i] assms(1) by (simp_all add: ready_def)
  have "whiteTime (handleSetup i s) \<noteq> 0 \<and> blackTime (handleSetup i s) \<noteq> 0"
  proof (cases "controlButton i")
    case False
    then show ?thesis using assms(1) by (simp add: handleSetup_def Let_def ready_def)
  next
    case c: True
    then obtain s2 where s2: "handleSetup i s = resetTimes (millisReset i) s2"
      by (simp add: handleSetup_def Let_def)
    with sel have "0 \<le> currentTimeOption s2" "currentTimeOption s2 < 4" by simp_all
    then show ?thesis using resetTimes_positive [of s2 "millisReset i"] by (simp add: s2)
  qed
  with sel True assms(2) show ?thesis by (auto simp: loop_def ready_def)
next
  case False
  let ?s2 = "switchTurn i (advance (millisUpdate i) (toggleRun i s))"
  have opt: "0 \<le> currentTimeOption ?s2" "currentTimeOption ?s2 < 4"
    using assms(1) by (simp_all add: ready_def)
  obtain s1 where s1: "snd (handleGame i s) = Some s1"
    and s': "s' = s1 \<or> s' = snd (warnings (millisWarn i) s1)"
    using assms(2) False by (auto simp: loop_game split: option.splits if_splits)
  have "ready s1"
  proof (cases "whiteTime (advance (millisUpdate i) (toggleRun i s)) = 0
         \<or> blackTime (advance (millisUpdate i) (toggleRun i s)) = 0")
    case True
    then obtain n where "s1 = resetTimes (millisReset i) (?s2\<lparr>isRunning := False, isSetup := True\<rparr>)"
      using s1 by (auto simp: handleGame_snd gameOver_snd split: option.splits)
    then show ?thesis
      using opt resetTimes_positive [of "?s2\<lparr>isRunning := False, isSetup := True\<rparr>" "millisReset i"]
      by (simp add: ready_def)
  next
    case False
    then have "s1 = ?s2" using s1 by (simp add: handleGame_snd)
    then show ?thesis using False opt by (simp add: ready_def)
  qed
  moreover have "ready (snd (warnings t x)) = ready x" for t x
    by (simp add: ready_def warnings_def oneMinuteWarning_def thirtySecondWarning_def
        finalSeconds_def split_def)
  ultimately show ?thesis using s' by auto
qed

section \<open>The warning beeps\<close>

lemma finalBeeps_only: "list_all isFinalBeep (fst (finalBeeps k p r t l))"
  by (induction k arbitrary: l) (auto simp: split_def)

lemma final_not_warning:
  "list_all isFinalBeep evs \<Longrightarrow> filter isOneMinute evs = [] \<and> filter isThirtySeconds evs = []"
  by (induction evs) (auto elim: isFinalBeep.elims)

lemma oneMinuteWarning_facts:
  "length (filter isOneMinute (fst (oneMinuteWarning s))) \<le> 1"
  "filter isThirtySeconds (fst (oneMinuteWarning s)) = []"
  "beepTimes (fst (oneMinuteWarning s)) = []"
  "list_all inFinalWindow (fst (oneMinuteWarning s))"
  "hasOneMinuteWarning s \<Longrightarrow> fst (oneMinuteWarning s) = []"
  "hasOneMinuteWarning s \<Longrightarrow> hasOneMinuteWarning (snd (oneMinuteWarning s))"
  "fst (oneMinuteWarning s) \<noteq> [] \<Longrightarrow> hasOneMinuteWarning (snd (oneMinuteWarning s))"
  "hasThirtySecondWarning (snd (oneMinuteWarning s)) = hasThirtySecondWarning s"
  "lastFinalSecondBeep (snd (oneMinuteWarning s)) = lastFinalSecondBeep s"
  by (auto simp: oneMinuteWarning_def split: if_splits)

lemma thirtySecondWarning_facts:
  "length (filter isThirtySeconds (fst (thirtySecondWarning s))) \<le> 1"
  "filter isOneMinute (fst (thirtySecondWarning s)) = []"
  "beepTimes (fst (thirtySecondWarning s)) = []"
  "list_all inFinalWindow (fst (thirtySecondWarning s))"
  "hasThirtySecondWarning s \<Longrightarrow> fst (thirtySecondWarning s) = []"
  "hasThirtySecondWarning s \<Longrightarrow> hasThirtySecondWarning (snd (thirtySecondWarning s))"
  "fst (thirtySecondWarning s) \<noteq> [] \<Longrightarrow> hasThirtySecondWarning (snd (thirtySecondWarning s))"
  "hasOneMinuteWarning (snd (thirtySecondWarning s)) = hasOneMinuteWarning s"
  "lastFinalSecondBeep (snd (thirtySecondWarning s)) = lastFinalSecondBeep s"
  by (auto simp: thirtySecondWarning_def split: if_splits)

lemma finalSeconds_facts:
  "filter isOneMinute (fst (finalSeconds t s)) = []"
  "filter isThirtySeconds (fst (finalSeconds t s)) = []"
  "hasOneMinuteWarning (snd (finalSeconds t s)) = hasOneMinuteWarning s"
  "hasThirtySecondWarning (snd (finalSeconds t s)) = hasThirtySecondWarning s"
  using finalBeeps_only [THEN final_not_warning]
  by (simp_all add: finalSeconds_def split_def)

lemma warnings_split:
  "fst (warnings t s) =
     fst (oneMinuteWarning s) @ fst (thirtySecondWarning (snd (oneMinuteWarning s)))
       @ fst (finalSeconds t (snd (thirtySecondWarning (snd (oneMinuteWarning s)))))"
  "snd (warnings t s) =
     snd (finalSeconds t (snd (thirtySecondWarning (snd (oneMinuteWarning s)))))"
  by (simp_all add: warnings_def split_def)

lemma warnings_one_minute:
  "length (filter isOneMinute (fst (warnings t s))) \<le> 1"
  "hasOneMinuteWarning s \<Longrightarrow> filter isOneMinute (fst (warnings t s)) = []"
  "hasOneMinuteWarning s \<Longrightarrow> hasOneMinuteWarning (snd (warnings t s))"
  "filter isOneMinute (fst (warnings t s)) \<noteq> [] \<Longrightarrow> hasOneMinuteWarning (snd (warnings t s))"
proof -
  show "length (filter isOneMinute (fst (warnings t s))) \<le> 1"
    using oneMinuteWarning_facts(1) [of s]
    by (simp add: warnings_split finalSeconds_facts thirtySecondWarning_facts)
  show "hasOneMinuteWarning s \<Longrightarrow> filter isOneMinute (fst (warnings t s)) = []"
    by (simp add: warnings_split finalSeconds_facts thirtySecondWarning_facts
          oneMinuteWarning_facts)
  show "hasOneMinuteWarning s \<Longrightarrow> hasOneMinuteWarning (snd (warnings t s))"
    by (simp add: warnings_split finalSeconds_facts thirtySecondWarning_facts
          oneMinuteWarning_facts)
  assume "filter isOneMinute (fst (warnings t s)) \<noteq> []"
  then have "fst (oneMinuteWarning s) \<noteq> []"
    by (auto simp: warnings_split finalSeconds_facts thirtySecondWarning_facts)
  then show "hasOneMinuteWarning (snd (warnings t s))"
    by (simp add: warnings_split finalSeconds_facts thirtySecondWarning_facts
          oneMinuteWarning_facts)
qed

lemma warnings_thirty:
  "length (filter isThirtySeconds (fst (warnings t s))) \<le> 1"
  "hasThirtySecondWarning s \<Longrightarrow> filter isThirtySeconds (fst (warnings t s)) = []"
  "hasThirtySecondWarning s \<Longrightarrow> hasThirtySecondWarning (snd (warnings t s))"
  "filter isThirtySeconds (fst (warnings t s)) \<noteq> []
     \<Longrightarrow> hasThirtySecondWarning (snd (warnings t s))"
proof -
  show "length (filter isThirtySeconds (fst (warnings t s))) \<le> 1"
    using thirtySecondWarning_facts(1) [of "snd (oneMinuteWarning s)"]
    by (simp add: warnings_split finalSeconds_facts oneMinuteWarning_facts)
  show "hasThirtySecondWarning s \<Longrightarrow> filter isThirtySeconds (fst (warnings t s)) = []"
    by (simp add: warnings_split finalSeconds_facts thirtySecondWarning_facts
          oneMinuteWarning_facts)
  show "hasThirtySecondWarning s \<Longrightarrow> hasThirtySecondWarning (snd (warnings t s))"
    by (simp add: warnings_split finalSeconds_facts thirtySecondWarning_facts
          oneMinuteWarning_facts)
  assume "filter isThirtySeconds (fst (warnings t s)) \<noteq> []"
  then have "fst (thirtySecondWarning (snd (oneMinuteWarning s))) \<noteq> []"
    by (auto simp: warnings_split finalSeconds_facts oneMinuteWarning_facts)
  then show "hasThirtySecondWarning (snd (warnings t s))"
    by (simp add: warnings_split finalSeconds_facts thirtySecondWarning_facts
          oneMinuteWarning_facts)
qed

lemma handleGame_quiet:
  "filter isOneMinute (fst (handleGame i s)) = []"
  "filter isThirtySeconds (fst (handleGame i s)) = []"
  "beepTimes (fst (handleGame i s)) = []"
  "list_all inFinalWindow (fst (handleGame i s))"
  "snd (handleGame i s) = Some s' \<Longrightarrow> hasOneMinuteWarning s' = hasOneMinuteWarning s"
  "snd (handleGame i s) = Some s' \<Longrightarrow> hasThirtySecondWarning s' = hasThirtySecondWarning s"
  "snd (handleGame i s) = Some s' \<Longrightarrow> lastFinalSecondBeep s' = lastFinalSecondBeep s"
  by (auto simp: handleGame_fst handleGame_snd gameOver_snd split: option.splits if_splits)

lemma loop_cases:
  assumes "\<not> isSetup s"
  obtains (blocked) "snd (handleGame i s) = None"
      and "loop i s = (fst (handleGame i s), None)"
  | (idle) s1 where "snd (handleGame i s) = Some s1" and "\<not> isRunning s1"
      and "loop i s = (fst (handleGame i s), Some s1)"
  | (running) s1 where "snd (handleGame i s) = Some s1" and "isRunning s1"
      and "loop i s = (fst (handleGame i s) @ fst (warnings (millisWarn i) s1),
                       Some (snd (warnings (millisWarn i) s1)))"
proof (cases "snd (handleGame i s)")
  case None
  then show ?thesis using assms blocked by (simp add: loop_game)
next
  case (Some s1)
  then show ?thesis using assms idle running by (cases "isRunning s1") (simp_all add: loop_game)
qed

lemma loop_one_minute:
  assumes "\<not> isSetup s"
  shows "length (filter isOneMinute (fst (loop i s))) \<le> 1"
    and "hasOneMinuteWarning s \<Longrightarrow> filter isOneMinute (fst (loop i s)) = []"
    and "hasOneMinuteWarning s \<Longrightarrow> snd (loop i s) = Some s' \<Longrightarrow> hasOneMinuteWarning s'"
    and "filter isOneMinute (fst (loop i s)) \<noteq> [] \<Longrightarrow> snd (loop i s) = Some s'
           \<Longrightarrow> hasOneMinuteWarning s'"
proof -
  note q = handleGame_quiet(1) [of i s]
  show "length (filter isOneMinute (fst (loop i s))) \<le> 1"
    using assms
  proof (cases rule: loop_cases [where i = i])
    case (running s1)
    then show ?thesis
      using q warnings_one_minute(1) [of "millisWarn i" s1] by simp
  qed (simp_all add: q)
  show "filter isOneMinute (fst (loop i s)) = []" if "hasOneMinuteWarning s"
    using assms
  proof (cases rule: loop_cases [where i = i])
    case (running s1)
    then show ?thesis
      using q that handleGame_quiet(5) [of i s s1]
        warnings_one_minute(2) [of s1 "millisWarn i"] by simp
  qed (simp_all add: q)
  show "hasOneMinuteWarning s'" if "hasOneMinuteWarning s" "snd (loop i s) = Some s'"
    using assms
  proof (cases rule: loop_cases [where i = i])
    case (idle s1)
    then show ?thesis using that handleGame_quiet(5) [of i s s1] by simp
  next
    case (running s1)
    then show ?thesis
      using that handleGame_quiet(5) [of i s s1]
        warnings_one_minute(3) [of s1 "millisWarn i"] by auto
  qed (use that in simp)
  show "hasOneMinuteWarning s'"
    if "filter isOneMinute (fst (loop i s)) \<noteq> []" "snd (loop i s) = Some s'"
    using assms
  proof (cases rule: loop_cases [where i = i])
    case (running s1)
    then show ?thesis
      using q that warnings_one_minute(4) [of "millisWarn i" s1] by auto
  qed (use that q in simp_all)
qed

lemma loop_thirty:
  assumes "\<not> isSetup s"
  shows "length (filter isThirtySeconds (fst (loop i s))) \<le> 1"
    and "hasThirtySecondWarning s \<Longrightarrow> filter isThirtySeconds (fst (loop i s)) = []"
    and "hasThirtySecondWarning s \<Longrightarrow> snd (loop i s) = Some s' \<Longrightarrow> hasThirtySecondWarning s'"
    and "filter isThirtySeconds (fst (loop i s)) \<noteq> [] \<Longrightarrow> snd (loop i s) = Some s'
           \<Longrightarrow> hasThirtySecondWarning s'"
proof -
  note q = handleGame_quiet(2) [of i s]
  show "length (filter isThirtySeconds (fst (loop i s))) \<le> 1"
    using assms
  proof (cases rule: loop_cases [where i = i])
    case (running s1)
    then show ?thesis
      using q warnings_thirty(1) [of "millisWarn i" s1] by simp
  qed (simp_all add: q)
  show "filter isThirtySeconds (fst (loop i s)) = []" if "hasThirtySecondWarning s"
    using assms
  proof (cases rule: loop_cases [where i = i])
    case (running s1)
    then show ?thesis
      using q that handleGame_quiet(6) [of i s s1]
        warnings_thirty(2) [of s1 "millisWarn i"] by simp
  qed (simp_all add: q)
  show "hasThirtySecondWarning s'" if "hasThirtySecondWarning s" "snd (loop i s) = Some s'"
    using assms
  proof (cases rule: loop_cases [where i = i])
    case (idle s1)
    then show ?thesis using that handleGame_quiet(6) [of i s s1] by simp
  next
    case (running s1)
    then show ?thesis
      using that handleGame_quiet(6) [of i s s1]
        warnings_thirty(3) [of s1 "millisWarn i"] by auto
  qed (use that in simp)
  show "hasThirtySecondWarning s'"
    if "filter isThirtySeconds (fst (loop i s)) \<noteq> []" "snd (loop i s) = Some s'"
    using assms
  proof (cases rule: loop_cases [where i = i])
    case (running s1)
    then show ?thesis
      using q that warnings_thirty(4) [of "millisWarn i" s1] by auto
  qed (use that q in simp_all)
qed

text \<open>
  The shape of the argument for one kind of warning, for any test \<open>P\<close> on events and any
  flag \<open>f\<close> of the state: a pass beeps at most once, not at all when the flag is set, keeps
  a set flag, and sets the flag when it beeps.
\<close>

lemma gameRun_once:
  assumes one: "\<And>i s. \<not> isSetup s \<Longrightarrow> length (filter P (fst (loop i s))) \<le> 1"
    and none: "\<And>i s. \<not> isSetup s \<Longrightarrow> f s \<Longrightarrow> filter P (fst (loop i s)) = []"
    and keep: "\<And>i s s'. \<not> isSetup s \<Longrightarrow> f s \<Longrightarrow> snd (loop i s) = Some s' \<Longrightarrow> f s'"
    and sets: "\<And>i s s'. \<not> isSetup s \<Longrightarrow> filter P (fst (loop i s)) \<noteq> []
                 \<Longrightarrow> snd (loop i s) = Some s' \<Longrightarrow> f s'"
  shows "length (filter P (gameRun ins s)) \<le> 1"
proof -
  have fired: "filter P (gameRun ins s) = []" if "f s" for ins s
    using that
  proof (induction ins arbitrary: s)
    case Nil
    then show ?case by simp
  next
    case (Cons i rest)
    show ?case
    proof (cases "isSetup s")
      case True
      then show ?thesis by (simp add: gameRun_setup)
    next
      case False
      show ?thesis
      proof (cases "snd (loop i s)")
        case None
        then show ?thesis
          using none [OF False Cons.prems, of i]
          by (simp add: gameRun_step False del: gameRun.simps)
      next
        case (Some s1)
        then have "f s1" using keep [OF False Cons.prems] by blast
        then have "filter P (gameRun rest s1) = []" by (rule Cons.IH)
        then show ?thesis
          using none [OF False Cons.prems, of i] Some
          by (simp add: gameRun_step False del: gameRun.simps)
      qed
    qed
  qed
  show ?thesis
  proof (induction ins arbitrary: s)
    case Nil
    then show ?case by simp
  next
    case (Cons i rest)
    show ?case
    proof (cases "isSetup s")
      case True
      then show ?thesis by (simp add: gameRun_setup)
    next
      case False
      show ?thesis
      proof (cases "snd (loop i s)")
        case None
        then show ?thesis
          using one [OF False, of i] by (simp add: gameRun_step False del: gameRun.simps)
      next
        case (Some s1)
        show ?thesis
        proof (cases "filter P (fst (loop i s)) = []")
          case True
          then show ?thesis
            using Cons.IH [of s1] Some by (simp add: gameRun_step False del: gameRun.simps)
        next
          case beep: False
          then have "f s1" using sets [OF False] Some by blast
          then have "filter P (gameRun rest s1) = []" by (rule fired)
          then show ?thesis
            using one [OF False, of i] Some
            by (simp add: gameRun_step False del: gameRun.simps)
        qed
      qed
    qed
  qed
qed

lemma count_list_filter: "P x \<Longrightarrow> count_list xs x \<le> length (filter P xs)"
  by (induction xs) auto

text \<open>
  C5. Among the events of one game there is at most one one-minute warning and at most
  one thirty-second warning, so for either player \<open>p\<close> at most one of each.
\<close>

theorem warnings_once_per_game:
  "length (filter isOneMinute (gameRun ins s)) \<le> 1
   \<and> length (filter isThirtySeconds (gameRun ins s)) \<le> 1
   \<and> count_list (gameRun ins s) (WarningOneMinute p) \<le> 1
   \<and> count_list (gameRun ins s) (WarningThirtySeconds p) \<le> 1"
proof -
  have a: "length (filter isOneMinute (gameRun ins s)) \<le> 1"
  proof (rule gameRun_once [where f = hasOneMinuteWarning])
    show "length (filter isOneMinute (fst (loop i s))) \<le> 1" if "\<not> isSetup s" for i s
      using that by (rule loop_one_minute(1))
    show "filter isOneMinute (fst (loop i s)) = []"
      if "\<not> isSetup s" "hasOneMinuteWarning s" for i s
      using that by (rule loop_one_minute(2))
    show "hasOneMinuteWarning s'"
      if "\<not> isSetup s" "hasOneMinuteWarning s" "snd (loop i s) = Some s'" for i s s'
      using that by (rule loop_one_minute(3))
    show "hasOneMinuteWarning s'"
      if "\<not> isSetup s" "filter isOneMinute (fst (loop i s)) \<noteq> []"
        "snd (loop i s) = Some s'" for i s s'
      using that by (rule loop_one_minute(4))
  qed
  have b: "length (filter isThirtySeconds (gameRun ins s)) \<le> 1"
  proof (rule gameRun_once [where f = hasThirtySecondWarning])
    show "length (filter isThirtySeconds (fst (loop i s))) \<le> 1" if "\<not> isSetup s" for i s
      using that by (rule loop_thirty(1))
    show "filter isThirtySeconds (fst (loop i s)) = []"
      if "\<not> isSetup s" "hasThirtySecondWarning s" for i s
      using that by (rule loop_thirty(2))
    show "hasThirtySecondWarning s'"
      if "\<not> isSetup s" "hasThirtySecondWarning s" "snd (loop i s) = Some s'" for i s s'
      using that by (rule loop_thirty(3))
    show "hasThirtySecondWarning s'"
      if "\<not> isSetup s" "filter isThirtySeconds (fst (loop i s)) \<noteq> []"
        "snd (loop i s) = Some s'" for i s s'
      using that by (rule loop_thirty(4))
  qed
  have "count_list (gameRun ins s) (WarningOneMinute p)
          \<le> length (filter isOneMinute (gameRun ins s))"
    "count_list (gameRun ins s) (WarningThirtySeconds p)
          \<le> length (filter isThirtySeconds (gameRun ins s))"
    by (simp_all add: count_list_filter)
  with a b show ?thesis by simp
qed

text \<open>
  A game in which both warnings sound: Black comes down to 25 s in one long pass, and
  later passes stay silent.
\<close>

theorem warnings_once_per_game_witness:
  "gameRun [idle 580000, idle 581000, idle 582000] (midGame\<lparr>isWhiteTurn := False\<rparr>)
     = [WarningOneMinute Black, WarningThirtySeconds Black]
   \<and> count_list (gameRun [idle 580000, idle 581000, idle 582000]
                    (midGame\<lparr>isWhiteTurn := False\<rparr>)) (WarningOneMinute Black) \<le> 1
   \<and> count_list (gameRun [idle 580000, idle 581000, idle 582000]
                    (midGame\<lparr>isWhiteTurn := False\<rparr>)) (WarningThirtySeconds Black) \<le> 1"
proof -
  have g: "gameRun [idle 580000, idle 581000, idle 582000] (midGame\<lparr>isWhiteTurn := False\<rparr>)
     = [WarningOneMinute Black, WarningThirtySeconds Black]"
    by code_simp
  from warnings_once_per_game [of "[idle 580000, idle 581000, idle 582000]"
      "midGame\<lparr>isWhiteTurn := False\<rparr>" Black] g
  show ?thesis by simp
qed

section \<open>The final beeps\<close>

lemma beepTimes_append: "beepTimes (xs @ ys) = beepTimes xs @ beepTimes ys"
  by (induction xs rule: beepTimes.induct) simp_all

lemma spaced_append: "spaced l (ts @ us) = (spaced l ts \<and> spaced (last (l # ts)) us)"
  by (induction ts arbitrary: l) simp_all

lemma finalBeeps_spaced:
  "spaced l (beepTimes (fst (finalBeeps k p r t l)))
   \<and> snd (finalBeeps k p r t l) = last (l # beepTimes (fst (finalBeeps k p r t l)))"
proof (induction k arbitrary: l)
  case 0
  show ?case by simp
next
  case (Suc k)
  show ?case
  proof (cases "r \<le> of_nat (Suc k) * 1000 \<and> t - l \<ge> 1000")
    case True
    then show ?thesis using Suc [of t] by (simp add: split_def)
  next
    case False
    then show ?thesis using Suc [of l] by auto
  qed
qed

lemma finalBeeps_window:
  "r \<le> 5000 \<Longrightarrow> list_all inFinalWindow (fst (finalBeeps k p r t l))"
  by (induction k arbitrary: l) (auto simp: split_def)

lemma finalSeconds_spaced:
  "spaced (lastFinalSecondBeep s) (beepTimes (fst (finalSeconds t s)))"
  "lastFinalSecondBeep (snd (finalSeconds t s))
     = last (lastFinalSecondBeep s # beepTimes (fst (finalSeconds t s)))"
  "list_all inFinalWindow (fst (finalSeconds t s))"
  using finalBeeps_spaced [where l = "lastFinalSecondBeep s" and k = 5
      and p = "currentPlayer s" and r = "currentPlayerTime s" and t = t]
    finalBeeps_window [where l = "lastFinalSecondBeep s" and k = 5
      and p = "currentPlayer s" and r = "currentPlayerTime s" and t = t]
  by (simp_all add: finalSeconds_def split_def)

lemma warnings_spaced:
  "spaced (lastFinalSecondBeep s) (beepTimes (fst (warnings t s)))"
  "lastFinalSecondBeep (snd (warnings t s))
     = last (lastFinalSecondBeep s # beepTimes (fst (warnings t s)))"
  "list_all inFinalWindow (fst (warnings t s))"
  using finalSeconds_spaced [where s = "snd (thirtySecondWarning (snd (oneMinuteWarning s)))"
      and t = t]
  by (simp_all add: warnings_split beepTimes_append oneMinuteWarning_facts
      thirtySecondWarning_facts)

lemma loop_spaced:
  assumes "\<not> isSetup s"
  shows "spaced (lastFinalSecondBeep s) (beepTimes (fst (loop i s)))"
    and "list_all inFinalWindow (fst (loop i s))"
    and "snd (loop i s) = Some s' \<Longrightarrow>
           lastFinalSecondBeep s' = last (lastFinalSecondBeep s # beepTimes (fst (loop i s)))"
proof -
  note q = handleGame_quiet(3,4) [of i s]
  show "spaced (lastFinalSecondBeep s) (beepTimes (fst (loop i s)))"
    using assms
  proof (cases rule: loop_cases [where i = i])
    case (running s1)
    then show ?thesis
      using q handleGame_quiet(7) [of i s s1] warnings_spaced(1) [where s = s1 and t = "millisWarn i"]
      by (simp add: beepTimes_append)
  qed (simp_all add: q)
  show "list_all inFinalWindow (fst (loop i s))"
    using assms
  proof (cases rule: loop_cases [where i = i])
    case (running s1)
    then show ?thesis
      using q warnings_spaced(3) [where s = s1 and t = "millisWarn i"] by simp
  qed (simp_all add: q)
  show "lastFinalSecondBeep s' = last (lastFinalSecondBeep s # beepTimes (fst (loop i s)))"
    if "snd (loop i s) = Some s'"
    using assms
  proof (cases rule: loop_cases [where i = i])
    case (idle s1)
    then show ?thesis using that q handleGame_quiet(7) [of i s s1] by simp
  next
    case (running s1)
    then show ?thesis
      using that q handleGame_quiet(7) [of i s s1] warnings_spaced(2) [where s = s1 and t = "millisWarn i"]
      by (auto simp: beepTimes_append)
  qed (use that in simp)
qed

text \<open>
  C6 as stated fails. In the game \<open>pauseAndResume\<close> from \<open>lastSeconds\<close> the final beep
  sounds twice for White, at 4890 ms and at 4690 ms left, and both times the second value
  of the specification is 5.
\<close>

theorem final_beep_same_second_counterexample:
  "gameRun pauseAndResume lastSeconds
     = [FinalSecondsBeep White 4890 100015, FinalSecondsBeep White 4690 102205]
   \<and> spec_secondsLeft 4890 = 5 \<and> spec_secondsLeft 4690 = 5"
  by code_simp

text \<open>
  C6, as amended. Within one game the final beeps are limited by the clock of
  \<^verbatim>\<open>millis()\<close>, not by the second value of the remaining time: each final beep comes at
  least 1000 ms, on the 32-bit millisecond clock, after the one before it (the first one
  after the \<^verbatim>\<open>lastFinalSecondBeep\<close> the game started with), and each sounds with at most
  5000 ms left for the player to move.
\<close>

theorem final_beeps_spaced:
  "spaced (lastFinalSecondBeep s) (beepTimes (gameRun ins s))
   \<and> list_all inFinalWindow (gameRun ins s)"
proof (induction ins arbitrary: s)
  case Nil
  show ?case by simp
next
  case (Cons i rest)
  show ?case
  proof (cases "isSetup s")
    case True
    then show ?thesis by (simp add: gameRun_setup)
  next
    case False
    show ?thesis
    proof (cases "snd (loop i s)")
      case None
      then show ?thesis
        using loop_spaced(1,2) [OF False, of i]
        by (simp add: gameRun_step False del: gameRun.simps)
    next
      case (Some s1)
      then have "lastFinalSecondBeep s1
                   = last (lastFinalSecondBeep s # beepTimes (fst (loop i s)))"
        using loop_spaced(3) [OF False] by blast
      then show ?thesis
        using loop_spaced(1,2) [OF False, of i] Cons [of s1] Some
        by (simp add: gameRun_step False beepTimes_append spaced_append del: gameRun.simps)
    qed
  qed
qed

text \<open>
  In the game \<open>pauseAndResume\<close> the two beeps are 2190 ms apart and both fall in the last
  five seconds.
\<close>

theorem final_beeps_spaced_witness:
  "beepTimes (gameRun pauseAndResume lastSeconds) = [100015, 102205]
   \<and> spaced 0 [100015, 102205]
   \<and> list_all inFinalWindow (gameRun pauseAndResume lastSeconds)"
proof -
  have t: "beepTimes (gameRun pauseAndResume lastSeconds) = [100015, 102205]"
    "lastFinalSecondBeep lastSeconds = 0"
    by code_simp+
  from final_beeps_spaced [of lastSeconds pauseAndResume] t show ?thesis by simp
qed

end
